theory Spec2Isabelle
  imports Complex_Main "HOL-Library.AList"
begin

section \<open>Data model\<close>

text \<open>
  The program is \<^verbatim>\<open>pomodoro_timer.py\<close>. A session record is the dictionary that
  \<^verbatim>\<open>log_session\<close> appends to the session list. Minutes are Python numbers (an
  \<^verbatim>\<open>int\<close> from the configuration or a \<^verbatim>\<open>float\<close> computed from the clock); they are
  modelled as rationals, so the arithmetic is exact.

  \<^verbatim>\<open>started_at\<close> is written by \<^verbatim>\<open>datetime.now().isoformat()\<close>, and the program reads
  two parts of it and nothing else: \<^verbatim>\<open>started_at[:10]\<close>, the ISO calendar date, and
  \<^verbatim>\<open>int(started_at[11:13])\<close>, the hour. The model keeps these two parts. A calendar date
  is its day number (the proleptic Gregorian ordinal of Python's \<^verbatim>\<open>date.toordinal()\<close>):
  ISO dates are of fixed width, so their order as strings is the order of the day numbers,
  and \<^verbatim>\<open>d - timedelta(days=1)\<close> is the day number minus one.
\<close>

type_synonym date = int

record timestamp =
  ts_date :: date
  ts_hour :: nat

record session =
  stype :: string
  planned_minutes :: rat
  actual_minutes :: rat
  completed :: bool
  label :: string
  started_at :: timestamp

text \<open>The exceptions of Python that the modelled code can raise.\<close>

datatype exn = ZeroDivisionError | ValueError

text \<open>
  \<^verbatim>\<open>date(year, month, day).toordinal()\<close> of Python's standard library, used to write
  calendar dates in examples.
\<close>

definition is_leap :: "int \<Rightarrow> bool" where
  "is_leap year = (year mod 4 = 0 \<and> (year mod 100 \<noteq> 0 \<or> year mod 400 = 0))"

definition days_before_year :: "int \<Rightarrow> int" where
  "days_before_year year =
     (let y = year - 1 in y * 365 + y div 4 - y div 100 + y div 400)"

definition days_before_month :: "int \<Rightarrow> nat \<Rightarrow> int" where
  "days_before_month year month =
     [0, 0, 31, 59, 90, 120, 151, 181, 212, 243, 273, 304, 334] ! month
       + (if month > 2 \<and> is_leap year then 1 else 0)"

definition ymd2ord :: "int \<Rightarrow> nat \<Rightarrow> nat \<Rightarrow> date" where
  "ymd2ord year month day = days_before_year year + days_before_month year month + int day"

section \<open>Statistics engine\<close>

text \<open>
  \<^verbatim>\<open>daily\<close> is a \<^verbatim>\<open>defaultdict\<close> keyed by date: an association list in insertion order
  (the order of a Python dictionary). Reading a missing key gives the default bucket, and
  storing under a new key appends it.
\<close>

record day_bucket =
  b_sessions :: nat
  b_minutes :: rat
  b_completed :: nat

record hour_bucket =
  h_sessions :: nat
  h_minutes :: rat

definition day_default :: day_bucket where
  "day_default = \<lparr>b_sessions = 0, b_minutes = 0, b_completed = 0\<rparr>"

definition hour_default :: hour_bucket where
  "hour_default = \<lparr>h_sessions = 0, h_minutes = 0\<rparr>"

definition day_get :: "(date \<times> day_bucket) list \<Rightarrow> date \<Rightarrow> day_bucket" where
  "day_get daily d = (case map_of daily d of Some b \<Rightarrow> b | None \<Rightarrow> day_default)"

definition hour_get :: "(nat \<times> hour_bucket) list \<Rightarrow> nat \<Rightarrow> hour_bucket" where
  "hour_get hourly h = (case map_of hourly h of Some b \<Rightarrow> b | None \<Rightarrow> hour_default)"

text \<open>One iteration of the loop \<^verbatim>\<open>for s in focus_sessions\<close> that fills \<^verbatim>\<open>daily\<close>.\<close>

definition daily_add :: "session \<Rightarrow> (date \<times> day_bucket) list \<Rightarrow> (date \<times> day_bucket) list" where
  "daily_add s daily =
     (let d = ts_date (started_at s);
          b = day_get daily d;
          b1 = b\<lparr>b_sessions := b_sessions b + 1\<rparr>;
          b2 = b1\<lparr>b_minutes := b_minutes b1 + actual_minutes s\<rparr>;
          b3 = (if completed s then b2\<lparr>b_completed := b_completed b2 + 1\<rparr> else b2)
      in AList.update d b3 daily)"

definition build_daily :: "session list \<Rightarrow> (date \<times> day_bucket) list" where
  "build_daily focus_sessions = fold daily_add focus_sessions []"

text \<open>One iteration of the loop that fills \<^verbatim>\<open>hourly\<close>.\<close>

definition hourly_add :: "session \<Rightarrow> (nat \<times> hour_bucket) list \<Rightarrow> (nat \<times> hour_bucket) list" where
  "hourly_add s hourly =
     (let hour = ts_hour (started_at s);
          b = hour_get hourly hour;
          b1 = b\<lparr>h_sessions := h_sessions b + 1\<rparr>;
          b2 = b1\<lparr>h_minutes := h_minutes b1 + actual_minutes s\<rparr>
      in AList.update hour b2 hourly)"

definition build_hourly :: "session list \<Rightarrow> (nat \<times> hour_bucket) list" where
  "build_hourly focus_sessions = fold hourly_add focus_sessions []"

text \<open>
  The best-streak loop \<^verbatim>\<open>for i, day in enumerate(sorted_days)\<close>.
  \<open>streak_scan daily sorted_days n\<close> is the pair \<^verbatim>\<open>(streak, best_streak)\<close> after the first
  \<open>n\<close> iterations; iteration \<open>i\<close> reads \<^verbatim>\<open>sorted_days[i]\<close> and, when \<open>i > 0\<close>,
  \<^verbatim>\<open>sorted_days[i - 1]\<close>.
\<close>

fun streak_scan :: "(date \<times> day_bucket) list \<Rightarrow> date list \<Rightarrow> nat \<Rightarrow> nat \<times> nat" where
  "streak_scan daily sorted_days 0 = (0, 0)"
| "streak_scan daily sorted_days (Suc i) =
     (let (streak, best_streak) = streak_scan daily sorted_days i;
          day = sorted_days ! i
      in if b_completed (day_get daily day) > 0 then
           let streak' =
                 (if i = 0 then 1
                  else let prev = sorted_days ! (i - 1);
                           expected_prev = day - 1
                       in if prev = expected_prev then streak + 1 else 1)
           in (streak', max best_streak streak')
         else (0, best_streak))"

definition best_streak_of :: "(date \<times> day_bucket) list \<Rightarrow> nat" where
  "best_streak_of daily =
     (let sorted_days = sort (map fst daily)
      in snd (streak_scan daily sorted_days (length sorted_days)))"

text \<open>
  The current-streak loop \<^verbatim>\<open>for _ in range(365)\<close> with its \<^verbatim>\<open>break\<close>: the first argument
  is the number of iterations left, then \<^verbatim>\<open>check_date\<close> and \<^verbatim>\<open>current_streak\<close>.
\<close>

fun current_loop :: "(date \<times> day_bucket) list \<Rightarrow> nat \<Rightarrow> date \<Rightarrow> nat \<Rightarrow> nat" where
  "current_loop daily 0 check_date current_streak = current_streak"
| "current_loop daily (Suc n) check_date current_streak =
     (if map_of daily check_date \<noteq> None \<and> b_completed (day_get daily check_date) > 0
      then current_loop daily n (check_date - 1) (current_streak + 1)
      else current_streak)"

definition current_streak_of :: "(date \<times> day_bucket) list \<Rightarrow> date \<Rightarrow> nat" where
  "current_streak_of daily today = current_loop daily 365 today 0"

text \<open>
  \<^verbatim>\<open>max(daily.items(), key=lambda x: x[1]["minutes"])\<close>: the first item, in the order of
  the dictionary, whose minutes no later item exceeds.
\<close>

fun max_by_minutes :: "(date \<times> day_bucket) \<Rightarrow> (date \<times> day_bucket) list \<Rightarrow> (date \<times> day_bucket)" where
  "max_by_minutes best [] = best"
| "max_by_minutes best (x # xs) =
     max_by_minutes (if b_minutes (snd x) > b_minutes (snd best) then x else best) xs"

definition best_day_of :: "(date \<times> day_bucket) list \<Rightarrow> (date \<times> day_bucket) option" where
  "best_day_of daily = (case daily of [] \<Rightarrow> None | x # xs \<Rightarrow> Some (max_by_minutes x xs))"

text \<open>
  The weekly loop \<^verbatim>\<open>for i in range(7)\<close>, as a fold over the indices; the state is
  \<^verbatim>\<open>(week_minutes, week_sessions)\<close>.
\<close>

definition week_step :: "(date \<times> day_bucket) list \<Rightarrow> date \<Rightarrow> nat \<Rightarrow> rat \<times> nat \<Rightarrow> rat \<times> nat" where
  "week_step daily today i = (\<lambda>(week_minutes, week_sessions).
     let d = today - int i
     in if map_of daily d \<noteq> None
        then (week_minutes + b_minutes (day_get daily d), week_sessions + b_sessions (day_get daily d))
        else (week_minutes, week_sessions))"

definition week_totals :: "(date \<times> day_bucket) list \<Rightarrow> date \<Rightarrow> rat \<times> nat" where
  "week_totals daily today = fold (week_step daily today) [0..<7] (0, 0)"

text \<open>
  Python's true division raises on a zero divisor; the completion rate is the conditional
  expression \<^verbatim>\<open>len(completed_focus) / len(focus_sessions) * 100 if focus_sessions else 0\<close>,
  which evaluates the division only in its first branch.
\<close>

definition truediv :: "rat \<Rightarrow> rat \<Rightarrow> exn + rat" where
  "truediv a b = (if b = 0 then Inl ZeroDivisionError else Inr (a / b))"

definition completion_rate_of :: "session list \<Rightarrow> session list \<Rightarrow> exn + rat" where
  "completion_rate_of completed_focus focus_sessions =
     (if focus_sessions \<noteq> [] then
        (case truediv (of_nat (length completed_focus)) (of_nat (length focus_sessions)) of
           Inl e \<Rightarrow> Inl e
         | Inr q \<Rightarrow> Inr (q * 100))
      else Inr 0)"

record report =
  total_focus_minutes :: rat
  total_completed_minutes :: rat
  total_focus_sessions :: nat
  completed_focus_sessions :: nat
  completion_rate :: rat
  current_streak :: nat
  best_streak :: nat
  daily :: "(date \<times> day_bucket) list"
  hourly :: "(nat \<times> hour_bucket) list"
  best_day :: "(date \<times> day_bucket) option"
  week_minutes :: rat
  week_sessions :: nat
  first_session_date :: "date option"

text \<open>
  \<^verbatim>\<open>compute_stats(sessions)\<close>, with \<^verbatim>\<open>date.today()\<close> as the parameter \<open>today\<close>. The empty
  dictionary \<^verbatim>\<open>{}\<close> returned for an empty log is \<open>None\<close>; an exception is \<open>Inl\<close>.
\<close>

definition compute_stats :: "session list \<Rightarrow> date \<Rightarrow> exn + report option" where
  "compute_stats sessions today =
     (if sessions = [] then Inr None
      else
        let focus_sessions = filter (\<lambda>s. stype s = ''focus'') sessions;
            completed_focus = filter completed focus_sessions
        in case completion_rate_of completed_focus focus_sessions of
             Inl e \<Rightarrow> Inl e
           | Inr rate \<Rightarrow>
               let dl = build_daily focus_sessions;
                   hl = build_hourly focus_sessions;
                   week = week_totals dl today
               in Inr (Some
                    \<lparr>total_focus_minutes = sum_list (map actual_minutes focus_sessions),
                     total_completed_minutes = sum_list (map actual_minutes completed_focus),
                     total_focus_sessions = length focus_sessions,
                     completed_focus_sessions = length completed_focus,
                     completion_rate = rate,
                     current_streak = current_streak_of dl today,
                     best_streak = best_streak_of dl,
                     daily = dl,
                     hourly = hl,
                     best_day = best_day_of dl,
                     week_minutes = fst week,
                     week_sessions = snd week,
                     first_session_date = Some (ts_date (started_at (hd sessions)))\<rparr>))"

section \<open>Timer engine\<close>

text \<open>
  The timer talks to its environment: it reads the clock, the user can press Ctrl+C while the
  countdown loop runs, it asks the user questions, and \<^verbatim>\<open>log_session\<close> reads the wall
  clock. A run of the program is driven by a script, the list of what the environment
  does, in the order in which the program meets it:
  \<^item> \<open>Clock t\<close>: a call of \<^verbatim>\<open>time.time()\<close> returns \<open>t\<close> (seconds);
  \<^item> \<open>Sigint\<close>: Ctrl+C arrives during the countdown loop, where the handler raises
    \<^verbatim>\<open>TimerInterrupt\<close>, before the loop reads the clock again;
  \<^item> \<open>Input s\<close>: a call of \<^verbatim>\<open>input_prompt\<close> returns \<open>s\<close> (the stripped line, or
    the empty string at end of input);
  \<^item> \<open>Now ts\<close>: \<^verbatim>\<open>datetime.now()\<close> in \<^verbatim>\<open>log_session\<close> is \<open>ts\<close>.

  The state is the content of the session file and the rest of the script. A function
  returns \<open>None\<close> when the script ends, or does not fit, before the function returns.
  Drawing the frame and \<^verbatim>\<open>time.sleep(1)\<close> change nothing the model keeps. The
  callers pass the session types \<open>focus\<close>, \<open>short\<close> and \<open>long\<close>, the keys of
  \<^verbatim>\<open>SESSION_TYPES\<close>.
\<close>

datatype event = Clock rat | Sigint | Input string | Now timestamp

type_synonym world = "session list \<times> event list"

fun time_time :: "event list \<Rightarrow> (rat \<times> event list) option" where
  "time_time (Clock t # es) = Some (t, es)"
| "time_time _ = None"

fun input_prompt :: "event list \<Rightarrow> (string \<times> event list) option" where
  "input_prompt (Input s # es) = Some (s, es)"
| "input_prompt _ = None"

text \<open>
  \<^verbatim>\<open>round(x, 2)\<close>: the nearest multiple of 1/100, a tie going to the even one.
\<close>

definition round2 :: "rat \<Rightarrow> rat" where
  "round2 x =
     (let q = x * 100; f = \<lfloor>q\<rfloor>; r = q - of_int f
      in if r < 1 / 2 then of_int f / 100
         else if r > 1 / 2 then of_int (f + 1) / 100
         else if even f then of_int f / 100 else of_int (f + 1) / 100)"

text \<open>
  \<^verbatim>\<open>log_session\<close> loads the session list, appends one record and saves the list.
\<close>

fun log_session :: "string \<Rightarrow> rat \<Rightarrow> rat \<Rightarrow> bool \<Rightarrow> string \<Rightarrow> world \<Rightarrow> world option" where
  "log_session session_type planned actual c lbl (sessions, Now ts # es) =
     Some (sessions @
             [\<lparr>stype = session_type, planned_minutes = planned, actual_minutes = round2 actual,
               completed = c, label = lbl, started_at = ts\<rparr>], es)"
| "log_session session_type planned actual c lbl (sessions, es) = None"

text \<open>
  The loop \<^verbatim>\<open>while True\<close> of \<^verbatim>\<open>run_timer\<close> and of \<^verbatim>\<open>run_timer_simple\<close> (the two
  loops differ in the frame they draw only). The result is the flag \<^verbatim>\<open>interrupted\<close>:
  \<open>False\<close> when the loop left through \<^verbatim>\<open>break\<close> because the remaining time was not
  positive, \<open>True\<close> when \<^verbatim>\<open>TimerInterrupt\<close> was raised.
\<close>

fun countdown :: "rat \<Rightarrow> rat \<Rightarrow> event list \<Rightarrow> (bool \<times> event list) option" where
  "countdown total_seconds start_time (Clock t # es) =
     (let elapsed = t - start_time;
          remaining = total_seconds - elapsed
      in if remaining \<le> 0 then Some (False, es)
         else countdown total_seconds start_time es)"
| "countdown total_seconds start_time (Sigint # es) = Some (True, es)"
| "countdown total_seconds start_time es = None"

definition run_timer_simple :: "string \<Rightarrow> rat \<Rightarrow> string \<Rightarrow> world \<Rightarrow> (bool \<times> world) option" where
  "run_timer_simple session_type minutes lbl = (\<lambda>(sessions, es).
     let total_seconds = minutes * 60
     in case time_time es of None \<Rightarrow> None | Some (start_time, es1) \<Rightarrow>
        case countdown total_seconds start_time es1 of None \<Rightarrow> None
        | Some (interrupted, es2) \<Rightarrow>
            if interrupted then
              (case time_time es2 of None \<Rightarrow> None | Some (t, es3) \<Rightarrow>
               let actual = (t - start_time) / 60
               in case log_session session_type minutes actual False lbl (sessions, es3) of
                    None \<Rightarrow> None
                  | Some (sessions', es4) \<Rightarrow>
                      (case input_prompt es4 of None \<Rightarrow> None
                       | Some (_, es5) \<Rightarrow> Some (False, sessions', es5)))
            else
              (case time_time es2 of None \<Rightarrow> None | Some (t, es3) \<Rightarrow>
               let actual = (t - start_time) / 60
               in case log_session session_type minutes actual True lbl (sessions, es3) of
                    None \<Rightarrow> None
                  | Some (sessions', es4) \<Rightarrow>
                      (case input_prompt es4 of None \<Rightarrow> None
                       | Some (_, es5) \<Rightarrow> Some (True, sessions', es5))))"

lemma time_time_shorter: "time_time es = Some (t, es') \<Longrightarrow> length es' < length es"
  by (cases es rule: time_time.cases) auto

lemma input_prompt_shorter: "input_prompt es = Some (s, es') \<Longrightarrow> length es' < length es"
  by (cases es rule: input_prompt.cases) auto

lemma log_session_shorter:
  "log_session ty p a c l (sessions, es) = Some (sessions', es') \<Longrightarrow> length es' < length es"
  by (cases "(ty, p, a, c, l, (sessions, es))" rule: log_session.cases) auto

lemma countdown_shorter:
  "countdown tot start es = Some (b, es') \<Longrightarrow> length es' < length es"
proof (induction es)
  case Nil
  then show ?case by simp
next
  case (Cons e es)
  then show ?case
    by (cases e) (auto simp add: Let_def less_Suc_eq split: if_splits)
qed

text \<open>
  \<^verbatim>\<open>run_timer\<close>. Choice 2 (restart) is the recursive call; it terminates because every
  attempt consumes a part of the script.
\<close>

function run_timer :: "string \<Rightarrow> rat \<Rightarrow> string \<Rightarrow> world \<Rightarrow> (bool \<times> world) option" where
  "run_timer session_type minutes lbl (sessions, es) =
     (let total_seconds = minutes * 60
      in case time_time es of None \<Rightarrow> None | Some (start_time, es1) \<Rightarrow>
         case countdown total_seconds start_time es1 of None \<Rightarrow> None
         | Some (interrupted, es2) \<Rightarrow>
         case time_time es2 of None \<Rightarrow> None | Some (t, es3) \<Rightarrow>
         let actual_minutes = (t - start_time) / 60
         in if \<not> interrupted then
              (case log_session session_type minutes actual_minutes True lbl (sessions, es3) of
                 None \<Rightarrow> None
               | Some (sessions', es4) \<Rightarrow>
                   (case input_prompt es4 of None \<Rightarrow> None
                    | Some (_, es5) \<Rightarrow> Some (True, sessions', es5)))
            else
              (case input_prompt es3 of None \<Rightarrow> None | Some (choice, es4) \<Rightarrow>
               if choice = ''1'' then
                 let remaining_minutes = (total_seconds - actual_minutes * 60) / 60
                 in if remaining_minutes > 1 / 10
                    then run_timer_simple session_type remaining_minutes lbl (sessions, es4)
                    else Some (True, sessions, es4)
               else if choice = ''2'' then
                 run_timer session_type minutes lbl (sessions, es4)
               else
                 (case log_session session_type minutes actual_minutes False lbl (sessions, es4) of
                    None \<Rightarrow> None
                  | Some (sessions', es5) \<Rightarrow>
                      (case input_prompt es5 of None \<Rightarrow> None
                       | Some (_, es6) \<Rightarrow> Some (False, sessions', es6)))))"
  by pat_completeness auto
termination
  by (relation "measure (\<lambda>(session_type, minutes, lbl, sessions, es). length es)")
     (auto dest!: time_time_shorter countdown_shorter input_prompt_shorter)

declare run_timer.simps [simp del]

section \<open>Focus screen\<close>

text \<open>
  The configuration: \<^verbatim>\<open>DEFAULT_CONFIG\<close> merged with the stored values.
\<close>

record config =
  focus_minutes :: int
  short_break_minutes :: int
  long_break_minutes :: int
  sessions_before_long_break :: int
  daily_goal_sessions :: int
  motivational_quotes :: bool

definition DEFAULT_CONFIG :: config where
  "DEFAULT_CONFIG =
     \<lparr>focus_minutes = 25, short_break_minutes = 5, long_break_minutes = 20,
      sessions_before_long_break = 4, daily_goal_sessions = 8, motivational_quotes = True\<rparr>"

text \<open>
  \<^verbatim>\<open>int(s)\<close> of Python on a string of ASCII characters: surrounding whitespace is
  dropped, then an optional sign and decimal digits, where single underscores may stand
  between digits; anything else raises \<^verbatim>\<open>ValueError\<close>.
\<close>

definition is_digit :: "char \<Rightarrow> bool" where
  "is_digit c = (c \<in> set ''0123456789'')"

definition is_space :: "char \<Rightarrow> bool" where
  "is_space c =
     (c \<in> set [CHR '' '', CHR 0x09, CHR 0x0A, CHR 0x0B, CHR 0x0C, CHR 0x0D,
                 CHR 0x1C, CHR 0x1D, CHR 0x1E, CHR 0x1F])"

definition strip :: "string \<Rightarrow> string" where
  "strip s = rev (dropWhile is_space (rev (dropWhile is_space s)))"

fun digit_groups :: "string \<Rightarrow> bool" where
  "digit_groups [] = False"
| "digit_groups [c] = is_digit c"
| "digit_groups (c # d # cs) =
     (if is_digit c
      then (if d = CHR ''_'' then digit_groups cs else digit_groups (d # cs))
      else False)"

definition decimal :: "string \<Rightarrow> int" where
  "decimal s = foldl (\<lambda>acc c. acc * 10 + (int (of_char c) - 48)) 0 (filter is_digit s)"

definition py_int :: "string \<Rightarrow> exn + int" where
  "py_int s =
     (let t = strip s;
          neg = (t \<noteq> [] \<and> hd t = CHR ''-'');
          body = (if t \<noteq> [] \<and> (hd t = CHR ''-'' \<or> hd t = CHR ''+'') then tl t else t)
      in if digit_groups body
         then Inr (if neg then - decimal body else decimal body)
         else Inl ValueError)"

text \<open>
  The body of the \<^verbatim>\<open>try\<close> block of \<^verbatim>\<open>screen_focus_session\<close>, and the block with its
  handler \<^verbatim>\<open>except ValueError\<close>.
\<close>

definition try_minutes :: "config \<Rightarrow> string \<Rightarrow> exn + int" where
  "try_minutes config duration =
     (case (if duration \<noteq> [] then py_int duration else Inr (focus_minutes config)) of
        Inl e \<Rightarrow> Inl e
      | Inr minutes \<Rightarrow> Inr (if minutes \<le> 0 then focus_minutes config else minutes))"

definition chosen_minutes :: "config \<Rightarrow> string \<Rightarrow> exn + int" where
  "chosen_minutes config duration =
     (case try_minutes config duration of
        Inl ValueError \<Rightarrow> Inr (focus_minutes config)
      | Inl e \<Rightarrow> Inl e
      | Inr minutes \<Rightarrow> Inr minutes)"

definition screen_focus_session :: "config \<Rightarrow> world \<Rightarrow> (exn + bool \<times> world) option" where
  "screen_focus_session config = (\<lambda>(sessions, es).
     case input_prompt es of None \<Rightarrow> None | Some (lbl, es1) \<Rightarrow>
     case input_prompt es1 of None \<Rightarrow> None | Some (duration, es2) \<Rightarrow>
     case chosen_minutes config duration of
       Inl e \<Rightarrow> Some (Inl e)
     | Inr minutes \<Rightarrow>
         (case input_prompt es2 of None \<Rightarrow> None | Some (_, es3) \<Rightarrow>
          map_option Inr (run_timer ''focus'' (of_int minutes) lbl (sessions, es3))))"

section \<open>Pomodoro cycle\<close>

text \<open>
  \<^verbatim>\<open>choice.lower()\<close> on ASCII letters.
\<close>

definition lower :: "string \<Rightarrow> string" where
  "lower s = map (\<lambda>c. let n = (of_char c :: nat)
                       in if 65 \<le> n \<and> n \<le> 90 then char_of (n + 32) else c) s"

text \<open>
  Python's \<^verbatim>\<open>%\<close> on integers takes the sign of the divisor, as \<open>mod\<close> does on
  \<open>int\<close>, and raises on a zero divisor. The test
  \<^verbatim>\<open>session_count > 0 and session_count % long_break_every == 0\<close> evaluates the
  remainder only when the count is positive.
\<close>

definition py_mod :: "int \<Rightarrow> int \<Rightarrow> exn + int" where
  "py_mod a b = (if b = 0 then Inl ZeroDivisionError else Inr (a mod b))"

definition long_break_due :: "int \<Rightarrow> int \<Rightarrow> exn + bool" where
  "long_break_due session_count long_break_every =
     (if session_count > 0 then
        (case py_mod session_count long_break_every of
           Inl e \<Rightarrow> Inl e
         | Inr m \<Rightarrow> Inr (m = 0))
      else Inr False)"

text \<open>
  One iteration of the loop of \<^verbatim>\<open>run_pomodoro_cycle\<close>. Besides the new state it reports
  what the iteration did (it offered a long break, or it ran a focus session and
  \<open>run_timer\<close> returned the given value) and how the loop goes on: \<^verbatim>\<open>break\<close>, or
  the next iteration with the given \<^verbatim>\<open>session_count\<close>.
\<close>

datatype action = LongBreakOffer | FocusRun bool

datatype control = Continue int | Break

definition cycle_body :: "config \<Rightarrow> int \<Rightarrow> world \<Rightarrow> (exn + action \<times> control \<times> world) option" where
  "cycle_body config session_count = (\<lambda>(sessions, es).
     let long_break_every = sessions_before_long_break config
     in case long_break_due session_count long_break_every of
          Inl e \<Rightarrow> Some (Inl e)
        | Inr True \<Rightarrow>
            (case input_prompt es of None \<Rightarrow> None | Some (choice, es1) \<Rightarrow>
             case (if lower choice = ''y''
                   then map_option snd (run_timer ''long'' (of_int (long_break_minutes config)) [] (sessions, es1))
                   else Some (sessions, es1)) of
               None \<Rightarrow> None
             | Some w \<Rightarrow> Some (Inr (LongBreakOffer, Continue 0, w)))
        | Inr False \<Rightarrow>
            (case input_prompt es of None \<Rightarrow> None | Some (lbl, es1) \<Rightarrow>
             case run_timer ''focus'' (of_int (focus_minutes config)) lbl (sessions, es1) of
               None \<Rightarrow> None
             | Some (finished, sessions1, es2) \<Rightarrow>
                 if finished then
                   (let session_count = session_count + 1
                    in case input_prompt es2 of None \<Rightarrow> None | Some (choice, es3) \<Rightarrow>
                       case (if lower choice = ''y''
                             then map_option snd (run_timer ''short'' (of_int (short_break_minutes config)) [] (sessions1, es3))
                             else Some (sessions1, es3)) of
                         None \<Rightarrow> None
                       | Some (sessions2, es4) \<Rightarrow>
                           (case input_prompt es4 of None \<Rightarrow> None | Some (choice2, es5) \<Rightarrow>
                            if lower choice2 \<in> {''n'', ''q'', ''''}
                            then Some (Inr (FocusRun True, Break, (sessions2, es5)))
                            else Some (Inr (FocusRun True, Continue session_count, (sessions2, es5)))))
                 else
                   (case input_prompt es2 of None \<Rightarrow> None | Some (choice, es3) \<Rightarrow>
                    if lower choice \<noteq> ''y''
                    then Some (Inr (FocusRun False, Break, (sessions1, es3)))
                    else Some (Inr (FocusRun False, Continue session_count, (sessions1, es3))))))"

lemma run_timer_simple_shorter:
  "run_timer_simple ty m l (sessions, es) = Some (b, sessions', es') \<Longrightarrow> length es' < length es"
  by (auto simp add: run_timer_simple_def Let_def split: option.splits if_splits prod.splits
      dest!: time_time_shorter countdown_shorter input_prompt_shorter log_session_shorter)

lemma run_timer_shorter:
  "run_timer ty m l (sessions, es) = Some (b, sessions', es') \<Longrightarrow> length es' < length es"
proof (induction "length es" arbitrary: es rule: less_induct)
  case less
  have restart: "length es' < length es"
    if "run_timer ty m l (sessions, es2) = Some (b, sessions', es')" and "length es2 < length es"
    for es2
    using less.hyps[OF that(2) that(1)] that(2) by simp
  from less.prems show ?case
    apply (subst (asm) run_timer.simps)
    apply (auto simp add: Let_def split: option.splits prod.splits if_splits
        dest!: time_time_shorter countdown_shorter input_prompt_shorter log_session_shorter
               run_timer_simple_shorter)
            apply (rule restart, assumption, linarith)+
    done
qed

lemma cycle_body_shorter:
  "cycle_body config c (sessions, es) = Some (Inr (a, ctl, sessions', es')) \<Longrightarrow> length es' < length es"
  by (auto simp add: cycle_body_def Let_def
      split: sum.splits bool.splits option.splits prod.splits if_splits
      dest!: input_prompt_shorter run_timer_shorter)

text \<open>
  The loop: it returns what its iterations did, in order.
\<close>

function cycle_loop :: "config \<Rightarrow> int \<Rightarrow> world \<Rightarrow> (exn + action list \<times> world) option" where
  "cycle_loop config session_count (sessions, es) =
     (case cycle_body config session_count (sessions, es) of
        None \<Rightarrow> None
      | Some (Inl e) \<Rightarrow> Some (Inl e)
      | Some (Inr (a, Break, w)) \<Rightarrow> Some (Inr ([a], w))
      | Some (Inr (a, Continue session_count', w)) \<Rightarrow>
          (case cycle_loop config session_count' w of
             None \<Rightarrow> None
           | Some (Inl e) \<Rightarrow> Some (Inl e)
           | Some (Inr (as, w')) \<Rightarrow> Some (Inr (a # as, w'))))"
  by pat_completeness auto
termination
  by (relation "measure (\<lambda>(config, session_count, sessions, es). length es)")
     (auto dest!: cycle_body_shorter)

declare cycle_loop.simps [simp del]

definition run_pomodoro_cycle :: "config \<Rightarrow> world \<Rightarrow> (exn + action list \<times> world) option" where
  "run_pomodoro_cycle config w = cycle_loop config 0 w"

section \<open>Notions of the specification\<close>

text \<open>
  The focus sessions of a log, and those started on a given calendar date. A day is
  active when at least one completed focus session started on it.
\<close>

definition focus_of :: "session list \<Rightarrow> session list" where
  "focus_of sessions = filter (\<lambda>s. stype s = ''focus'') sessions"

definition focus_on_day :: "session list \<Rightarrow> date \<Rightarrow> session list" where
  "focus_on_day sessions d =
     filter (\<lambda>s. stype s = ''focus'' \<and> ts_date (started_at s) = d) sessions"

definition active_day :: "session list \<Rightarrow> date \<Rightarrow> bool" where
  "active_day sessions d = (filter completed (focus_on_day sessions d) \<noteq> [])"

text \<open>
  The bucket of a date as the specification describes it: the number of focus sessions
  started on the date, the sum of their actual minutes and the number of completed ones.
\<close>

definition bucket_of :: "session list \<Rightarrow> date \<Rightarrow> day_bucket" where
  "bucket_of fs d =
     (let on = filter (\<lambda>s. ts_date (started_at s) = d) fs
      in \<lparr>b_sessions = length on, b_minutes = sum_list (map actual_minutes on),
          b_completed = length (filter completed on)\<rparr>)"

text \<open>
  The test of the current-streak loop on a date: the date is a key of \<^verbatim>\<open>daily\<close> and
  its bucket counts a completed session.
\<close>

definition day_active :: "(date \<times> day_bucket) list \<Rightarrow> date \<Rightarrow> bool" where
  "day_active dl d = (map_of dl d \<noteq> None \<and> b_completed (day_get dl d) > 0)"

text \<open>
  The focus sessions of the trailing week: those started on today's date or on one of the
  six dates before it.
\<close>

definition in_week :: "date \<Rightarrow> session \<Rightarrow> bool" where
  "in_week today s =
     (stype s = ''focus'' \<and> today - 6 \<le> ts_date (started_at s) \<and> ts_date (started_at s) \<le> today)"


section \<open>Example logs and scripts\<close>

text \<open>
  A focus record and a short-break record as \<^verbatim>\<open>log_session\<close> writes them, started on
  day \<open>d\<close> at hour \<open>h\<close>.
\<close>

definition focus_record :: "date \<Rightarrow> nat \<Rightarrow> rat \<Rightarrow> bool \<Rightarrow> session" where
  "focus_record d h m c =
     \<lparr>stype = ''focus'', planned_minutes = 25, actual_minutes = m, completed = c,
      label = [], started_at = \<lparr>ts_date = d, ts_hour = h\<rparr>\<rparr>"

definition break_record :: "date \<Rightarrow> nat \<Rightarrow> session" where
  "break_record d h =
     \<lparr>stype = ''short'', planned_minutes = 5, actual_minutes = 5, completed = True,
      label = [], started_at = \<lparr>ts_date = d, ts_hour = h\<rparr>\<rparr>"

text \<open>
  Completed focus sessions on 2024-01-01, 01-02 and 01-03.
\<close>

definition log_three_days :: "session list" where
  "log_three_days =
     [focus_record (ymd2ord 2024 1 1) 9 25 True,
      focus_record (ymd2ord 2024 1 2) 23 25 True,
      focus_record (ymd2ord 2024 1 3) 0 25 True]"

text \<open>
  Completed focus sessions on the five days 2024-02-26 to 2024-03-01, none on 03-02, and
  on 03-03 and 03-04; 03-03 also has an abandoned session.
\<close>

definition log_five_gap_two :: "session list" where
  "log_five_gap_two =
     [focus_record (ymd2ord 2024 2 26) 9 25 True,
      focus_record (ymd2ord 2024 2 27) 9 25 True,
      focus_record (ymd2ord 2024 2 28) 9 25 True,
      focus_record (ymd2ord 2024 2 29) 9 25 True,
      focus_record (ymd2ord 2024 3 1) 9 25 True,
      focus_record (ymd2ord 2024 3 3) 9 25 True,
      focus_record (ymd2ord 2024 3 3) 10 12 False,
      focus_record (ymd2ord 2024 3 4) 9 25 True]"

text \<open>
  A week with a session late on the day seven days before 2024-03-04 (outside the window),
  one just after midnight on the first day of the window, a break, and one late today.
\<close>

definition log_week :: "session list" where
  "log_week =
     [focus_record (ymd2ord 2024 2 26) 23 25 True,
      focus_record (ymd2ord 2024 2 27) 0 10 False,
      break_record (ymd2ord 2024 2 27) 1,
      focus_record (ymd2ord 2024 3 4) 23 25 True]"

text \<open>
  \<open>ticks t n\<close>: the clock as \<open>n\<close> iterations of the countdown loop read it, one
  second apart, the first reading being \<open>t\<close>.
\<close>

fun ticks :: "rat \<Rightarrow> nat \<Rightarrow> event list" where
  "ticks t 0 = []"
| "ticks t (Suc n) = Clock t # ticks (t + 1) n"

definition at_nine :: timestamp where
  "at_nine = \<lparr>ts_date = ymd2ord 2024 3 4, ts_hour = 9\<rparr>"

text \<open>
  A one-minute focus session: Ctrl+C after 55.5 seconds, then the answer 1 (resume).
\<close>

definition script_near_end :: "event list" where
  "script_near_end = Clock 0 # ticks 0 56 @ [Sigint, Clock (111 / 2), Input ''1'']"

text \<open>
  A one-minute focus session: Ctrl+C after 30.5 seconds, then the answer 1 (resume) given
  when the clock shows 32; the resumed countdown of 29.5 seconds runs to its end, which the
  loop sees at its reading 62.
\<close>

definition script_resumed :: "event list" where
  "script_resumed =
     Clock 0 # ticks 0 31 @ [Sigint, Clock (61 / 2), Input ''1''] @
     Clock 32 # ticks 32 31 @ [Clock 62, Now at_nine, Input []]"

text \<open>
  A one-minute timer that starts at \<open>t\<close> and runs to its end, and one that is stopped
  by Ctrl+C after 10.2 seconds with the answer 3 (stop and save).
\<close>

definition complete_script :: "rat \<Rightarrow> event list" where
  "complete_script t = Clock t # ticks t 61 @ [Clock (t + 60), Now at_nine, Input []]"


text \<open>
  A cycle with a long break every two focus sessions: a completed focus session, an
  abandoned one, a completed one, the long break (accepted), and a last focus session.
\<close>

definition cycle_config :: config where
  "cycle_config = DEFAULT_CONFIG\<lparr>focus_minutes := 1, short_break_minutes := 1,
     long_break_minutes := 1, sessions_before_long_break := 2\<rparr>"


section \<open>Properties of the statistics engine\<close>

subsection \<open>The report\<close>

lemma completion_rate_of_value:
  "completion_rate_of cf fs =
     Inr (if fs = [] then 0 else of_nat (length cf) / of_nat (length fs) * 100)"
  by (simp add: completion_rate_of_def truediv_def)

lemma compute_stats_nonempty:
  assumes "sessions \<noteq> []"
  shows "\<exists>r. compute_stats sessions today = Inr (Some r)"
  using assms by (simp add: compute_stats_def completion_rate_of_value Let_def)

lemma compute_stats_Some:
  assumes "compute_stats sessions today = Inr (Some r)"
  shows "sessions \<noteq> []"
    and "daily r = build_daily (focus_of sessions)"
    and "current_streak r = current_streak_of (build_daily (focus_of sessions)) today"
    and "best_streak r = best_streak_of (build_daily (focus_of sessions))"
    and "week_minutes r = fst (week_totals (build_daily (focus_of sessions)) today)"
    and "week_sessions r = snd (week_totals (build_daily (focus_of sessions)) today)"
  using assms
  by (auto simp add: compute_stats_def completion_rate_of_value Let_def focus_of_def
      split: if_splits)

lemma compute_stats_None: "(compute_stats sessions today = Inr None) = (sessions = [])"
  by (simp add: compute_stats_def completion_rate_of_value Let_def)

lemmas ymd_simps = ymd2ord_def days_before_year_def days_before_month_def is_leap_def

subsection \<open>The daily buckets\<close>

lemma day_active_iff: "day_active dl d = (b_completed (day_get dl d) > 0)"
  by (auto simp add: day_active_def day_get_def day_default_def split: option.splits)

lemma build_daily_snoc: "build_daily (fs @ [s]) = daily_add s (build_daily fs)"
  by (simp add: build_daily_def)

lemma map_of_daily_add:
  "map_of (daily_add s dl) d =
     (if d = ts_date (started_at s) then Some (day_get (daily_add s dl) d) else map_of dl d)"
  by (simp add: daily_add_def Let_def update_conv' day_get_def)

lemma build_daily_keys:
  "(map_of (build_daily fs) d \<noteq> None) = (d \<in> (\<lambda>s. ts_date (started_at s)) ` set fs)"
proof (induction fs rule: rev_induct)
  case Nil
  show ?case by (simp add: build_daily_def)
next
  case (snoc s fs)
  then show ?case
    by (auto simp add: build_daily_snoc map_of_daily_add)
qed

lemma build_daily_get: "day_get (build_daily fs) d = bucket_of fs d"
proof (induction fs arbitrary: d rule: rev_induct)
  case Nil
  show ?case by (simp add: build_daily_def day_get_def day_default_def bucket_of_def)
next
  case (snoc s fs)
  have "day_get (daily_add s (build_daily fs)) d =
        (if d = ts_date (started_at s)
         then (let b = day_get (build_daily fs) d;
                   b1 = b\<lparr>b_sessions := b_sessions b + 1\<rparr>;
                   b2 = b1\<lparr>b_minutes := b_minutes b1 + actual_minutes s\<rparr>
               in if completed s then b2\<lparr>b_completed := b_completed b2 + 1\<rparr> else b2)
         else day_get (build_daily fs) d)"
    by (simp add: daily_add_def Let_def update_conv' day_get_def)
  then show ?case
    by (simp add: build_daily_snoc snoc.IH bucket_of_def Let_def)
qed

lemma build_daily_distinct: "distinct (map fst (build_daily fs))"
proof (induction fs rule: rev_induct)
  case Nil
  show ?case by (simp add: build_daily_def)
next
  case (snoc s fs)
  then show ?case
    by (simp add: build_daily_snoc daily_add_def Let_def distinct_update)
qed

lemma build_daily_active:
  "day_active (build_daily (filter (\<lambda>s. stype s = ''focus'') sessions)) d = active_day sessions d"
proof -
  have "filter completed (filter (\<lambda>s. ts_date (started_at s) = d) (filter (\<lambda>s. stype s = ''focus'') sessions))
        = filter completed (focus_on_day sessions d)"
    by (simp add: focus_on_day_def conj_commute)
  then show ?thesis
    by (simp add: day_active_iff build_daily_get bucket_of_def Let_def active_day_def)
qed

lemma daily_active: "day_active (build_daily (focus_of sessions)) d = active_day sessions d"
  by (simp add: focus_of_def build_daily_active)

subsection \<open>The current-streak loop\<close>

lemma current_loop_acc: "current_loop dl n d c = c + current_loop dl n d 0"
proof (induction n arbitrary: d c)
  case 0
  show ?case by simp
next
  case (Suc n)
  show ?case
    using Suc.IH[of "d - 1" "c + 1"] Suc.IH[of "d - 1" 1] by simp
qed

lemma current_loop_Suc:
  "current_loop dl (Suc n) d 0 = (if day_active dl d then Suc (current_loop dl n (d - 1) 0) else 0)"
  using current_loop_acc[of dl n "d - 1" 1] by (simp add: day_active_def)

lemma current_loop_le: "current_loop dl n d 0 \<le> n"
  by (induction n arbitrary: d) (simp_all add: current_loop_Suc del: current_loop.simps(2))

lemma current_loop_active:
  "i < current_loop dl n d 0 \<Longrightarrow> day_active dl (d - int i)"
proof (induction n arbitrary: d i)
  case 0
  then show ?case by simp
next
  case (Suc n)
  from Suc.prems have act: "day_active dl d"
    by (simp add: current_loop_Suc del: current_loop.simps(2) split: if_splits)
  show ?case
  proof (cases i)
    case 0
    with act show ?thesis by simp
  next
    case (Suc j)
    with Suc.prems act have "j < current_loop dl n (d - 1) 0"
      by (simp add: current_loop_Suc del: current_loop.simps(2))
    from Suc.IH[OF this] Suc show ?thesis by (simp add: algebra_simps)
  qed
qed

lemma current_loop_stop:
  "current_loop dl n d 0 < n \<Longrightarrow> \<not> day_active dl (d - int (current_loop dl n d 0))"
proof (induction n arbitrary: d)
  case 0
  then show ?case by simp
next
  case (Suc n)
  show ?case
  proof (cases "day_active dl d")
    case False
    then show ?thesis by (simp add: current_loop_Suc del: current_loop.simps(2))
  next
    case True
    with Suc.prems have "current_loop dl n (d - 1) 0 < n"
      by (simp add: current_loop_Suc del: current_loop.simps(2))
    from Suc.IH[OF this] True show ?thesis
      by (simp add: current_loop_Suc algebra_simps del: current_loop.simps(2))
  qed
qed

lemma current_loop_empty: "current_loop [] n d c = c"
  by (cases n) simp_all

lemma current_streak_char:
  fixes sessions today
  defines "c \<equiv> current_streak_of (build_daily (focus_of sessions)) today"
  shows "c \<le> 365"
    and "i < c \<Longrightarrow> active_day sessions (today - int i)"
    and "c < 365 \<Longrightarrow> \<not> active_day sessions (today - int c)"
proof -
  show "c \<le> 365"
    unfolding c_def current_streak_of_def by (rule current_loop_le)
  show "i < c \<Longrightarrow> active_day sessions (today - int i)"
    unfolding c_def current_streak_of_def
    using current_loop_active[of i "build_daily (focus_of sessions)" 365 today]
    by (simp add: daily_active)
  show "c < 365 \<Longrightarrow> \<not> active_day sessions (today - int c)"
    unfolding c_def current_streak_of_def
    using current_loop_stop[of "build_daily (focus_of sessions)" 365 today]
    by (simp add: daily_active)
qed

subsection \<open>The best-streak loop\<close>

lemma scan_fst_Suc:
  "fst (streak_scan dl ds (Suc i)) =
     (if day_active dl (ds ! i) then
        (if i = 0 then 1
         else if ds ! (i - 1) = ds ! i - 1 then fst (streak_scan dl ds i) + 1 else 1)
      else 0)"
  by (simp add: day_active_iff Let_def split: prod.splits)

lemma scan_snd_Suc:
  "snd (streak_scan dl ds (Suc i)) =
     (if day_active dl (ds ! i)
      then max (snd (streak_scan dl ds i)) (fst (streak_scan dl ds (Suc i)))
      else snd (streak_scan dl ds i))"
  by (simp add: day_active_iff Let_def split: prod.splits)

lemma scan_snd_mono: "i \<le> j \<Longrightarrow> snd (streak_scan dl ds i) \<le> snd (streak_scan dl ds j)"
proof (induction j)
  case 0
  then show ?case by simp
next
  case (Suc j)
  show ?case
  proof (cases "i = Suc j")
    case True
    then show ?thesis by simp
  next
    case False
    with Suc.prems have "i \<le> j" by simp
    from Suc.IH[OF this] show ?thesis
      by (simp add: scan_snd_Suc le_max_iff_disj del: streak_scan.simps(2))
  qed
qed

lemma scan_fst_le_snd: "fst (streak_scan dl ds (Suc i)) \<le> snd (streak_scan dl ds (Suc i))"
proof (cases "day_active dl (ds ! i)")
  case True
  then show ?thesis by (simp add: scan_snd_Suc del: streak_scan.simps(2))
next
  case False
  then show ?thesis by (simp add: scan_fst_Suc del: streak_scan.simps(2))
qed

lemma sorted_pred_index:
  fixes ds :: "int list"
  assumes "sorted ds" and "distinct ds" and "i < length ds" and "ds ! i - 1 \<in> set ds"
  shows "0 < i \<and> ds ! (i - 1) = ds ! i - 1"
proof -
  from assms(4) obtain j where j: "j < length ds" "ds ! j = ds ! i - 1"
    by (auto simp add: in_set_conv_nth)
  have "j < i"
  proof (rule ccontr)
    assume "\<not> j < i"
    then have "i \<le> j" by simp
    with assms(1) j(1) have "ds ! i \<le> ds ! j" by (simp add: sorted_nth_mono)
    with j(2) show False by simp
  qed
  then have pos: "0 < i" by simp
  from \<open>j < i\<close> have "j \<le> i - 1" by simp
  with assms(1,3) have lo: "ds ! j \<le> ds ! (i - 1)" by (simp add: sorted_nth_mono)
  from assms(1,3) pos have hi: "ds ! (i - 1) \<le> ds ! i" by (simp add: sorted_nth_mono)
  from assms(2,3) pos have "ds ! (i - 1) \<noteq> ds ! i"
    by (simp add: nth_eq_iff_index_eq)
  with lo hi j(2) pos show ?thesis by simp
qed

lemma run_le_streak:
  assumes "sorted ds" and "distinct ds" and keys: "\<And>d. day_active dl d \<Longrightarrow> d \<in> set ds"
  shows "j < length ds \<Longrightarrow> (\<And>i. i < k \<Longrightarrow> day_active dl (ds ! j - int i))
           \<Longrightarrow> k \<le> fst (streak_scan dl ds (Suc j))"
proof (induction k arbitrary: j)
  case 0
  show ?case by simp
next
  case (Suc k)
  from Suc.prems(2)[of 0] have act: "day_active dl (ds ! j)" by simp
  show ?case
  proof (cases k)
    case 0
    with act show ?thesis by (simp add: scan_fst_Suc del: streak_scan.simps(2))
  next
    case (Suc k')
    with Suc.prems(2)[of 1] have "day_active dl (ds ! j - 1)" by simp
    then have "ds ! j - 1 \<in> set ds" by (rule keys)
    from sorted_pred_index[OF assms(1,2) Suc.prems(1) this]
    have pos: "0 < j" and prev: "ds ! (j - 1) = ds ! j - 1" by simp_all
    have "k \<le> fst (streak_scan dl ds (Suc (j - 1)))"
    proof (rule Suc.IH)
      from Suc.prems(1) show "j - 1 < length ds" by simp
    next
      fix i assume "i < k"
      then have "Suc i < Suc k" by simp
      from prev have "ds ! (j - 1) - int i = ds ! j - int (Suc i)" by simp
      with Suc.prems(2)[OF \<open>Suc i < Suc k\<close>] show "day_active dl (ds ! (j - 1) - int i)"
        by (simp only:)
    qed
    with pos have "k \<le> fst (streak_scan dl ds j)" by simp
    with act pos prev show ?thesis
      by (simp add: scan_fst_Suc del: streak_scan.simps(2))
  qed
qed

lemma streak_is_run:
  "i < fst (streak_scan dl ds (Suc j)) \<Longrightarrow> day_active dl (ds ! j - int i)"
proof (induction j arbitrary: i)
  case 0
  then show ?case
    by (simp add: scan_fst_Suc del: streak_scan.simps(2) split: if_splits)
next
  case (Suc j)
  from Suc.prems have act: "day_active dl (ds ! Suc j)"
    by (simp add: scan_fst_Suc[of dl ds "Suc j"] del: streak_scan.simps(2) split: if_splits)
  show ?case
  proof (cases i)
    case 0
    with act show ?thesis by simp
  next
    case i: (Suc i')
    with Suc.prems act
    have prev: "ds ! j = ds ! Suc j - 1" and "i' < fst (streak_scan dl ds (Suc j))"
      by (simp_all add: scan_fst_Suc[of dl ds "Suc j"] del: streak_scan.simps(2) split: if_splits)
    from prev i have "ds ! Suc j - int i = ds ! j - int i'" by simp
    with Suc.IH[OF \<open>i' < fst (streak_scan dl ds (Suc j))\<close>] show ?thesis by (simp only:)
  qed
qed

lemma best_attained:
  "snd (streak_scan dl ds n) = 0 \<or>
   (\<exists>j<n. fst (streak_scan dl ds (Suc j)) = snd (streak_scan dl ds n))"
proof (induction n)
  case 0
  show ?case by simp
next
  case (Suc n)
  show ?case
  proof (cases "day_active dl (ds ! n) \<and> snd (streak_scan dl ds n) \<le> fst (streak_scan dl ds (Suc n))")
    case True
    then have "snd (streak_scan dl ds (Suc n)) = fst (streak_scan dl ds (Suc n))"
      by (simp add: scan_snd_Suc max_def del: streak_scan.simps(2))
    then have "n < Suc n \<and> fst (streak_scan dl ds (Suc n)) = snd (streak_scan dl ds (Suc n))"
      by simp
    then show ?thesis by blast
  next
    case False
    then have eq: "snd (streak_scan dl ds (Suc n)) = snd (streak_scan dl ds n)"
      by (simp add: scan_snd_Suc max_def del: streak_scan.simps(2))
    from Suc.IH show ?thesis
    proof
      assume "snd (streak_scan dl ds n) = 0"
      with eq show ?thesis by simp
    next
      assume "\<exists>j<n. fst (streak_scan dl ds (Suc j)) = snd (streak_scan dl ds n)"
      then obtain j where "j < n" "fst (streak_scan dl ds (Suc j)) = snd (streak_scan dl ds n)"
        by blast
      with eq have "j < Suc n \<and> fst (streak_scan dl ds (Suc j)) = snd (streak_scan dl ds (Suc n))"
        by simp
      then show ?thesis by blast
    qed
  qed
qed

lemma sorted_keys:
  fixes dl :: "(date \<times> day_bucket) list"
  assumes "distinct (map fst dl)"
  shows "sorted (sort (map fst dl))" and "distinct (sort (map fst dl))"
    and "day_active dl d \<Longrightarrow> d \<in> set (sort (map fst dl))"
proof -
  show "sorted (sort (map fst dl))" by simp
  from assms show "distinct (sort (map fst dl))" by simp
  assume "day_active dl d"
  then have "map_of dl d \<noteq> None" by (simp add: day_active_def)
  then show "d \<in> set (sort (map fst dl))" by (simp add: map_of_eq_None_iff)
qed

lemma best_streak_upper:
  assumes dist: "distinct (map fst dl)"
    and run: "\<And>i. i < k \<Longrightarrow> day_active dl (d - int i)"
  shows "k \<le> best_streak_of dl"
proof (cases k)
  case 0
  then show ?thesis by simp
next
  case (Suc k')
  let ?ds = "sort (map fst dl)"
  from run[of 0] Suc have "day_active dl d" by simp
  then have "d \<in> set ?ds" by (rule sorted_keys(3)[OF dist])
  then obtain j where j: "j < length ?ds" "?ds ! j = d"
    unfolding in_set_conv_nth by blast
  have "k \<le> fst (streak_scan dl ?ds (Suc j))"
  proof (rule run_le_streak[OF sorted_keys(1,2)[OF dist] _ j(1)])
    fix d' assume "day_active dl d'"
    then show "d' \<in> set ?ds" by (rule sorted_keys(3)[OF dist])
  next
    fix i assume "i < k"
    with run j(2) show "day_active dl (?ds ! j - int i)" by simp
  qed
  also have "\<dots> \<le> snd (streak_scan dl ?ds (Suc j))" by (rule scan_fst_le_snd)
  also from j(1) have "\<dots> \<le> snd (streak_scan dl ?ds (length ?ds))"
    by (intro scan_snd_mono) simp
  finally show ?thesis by (simp add: best_streak_of_def Let_def)
qed

lemma best_streak_run:
  "\<exists>d. \<forall>i<best_streak_of dl. day_active dl (d - int i)"
proof -
  let ?ds = "sort (map fst dl)"
  from best_attained[of dl ?ds "length ?ds"]
  show ?thesis
  proof
    assume "snd (streak_scan dl ?ds (length ?ds)) = 0"
    then show ?thesis by (simp add: best_streak_of_def Let_def)
  next
    assume "\<exists>j<length ?ds. fst (streak_scan dl ?ds (Suc j)) = snd (streak_scan dl ?ds (length ?ds))"
    then obtain j where j: "fst (streak_scan dl ?ds (Suc j)) = best_streak_of dl"
      by (auto simp add: best_streak_of_def Let_def)
    have "\<forall>i<best_streak_of dl. day_active dl (?ds ! j - int i)"
      using streak_is_run[of _ dl ?ds j] j by simp
    then show ?thesis by blast
  qed
qed

lemma current_le_best:
  assumes "distinct (map fst dl)"
  shows "current_streak_of dl today \<le> best_streak_of dl"
proof (rule best_streak_upper[OF assms])
  fix i assume "i < current_streak_of dl today"
  then show "day_active dl (today - int i)"
    unfolding current_streak_of_def by (rule current_loop_active)
qed

subsection \<open>The weekly totals\<close>

lemma week_step_get:
  "week_step dl today i (m, c) =
     (m + b_minutes (day_get dl (today - int i)), c + b_sessions (day_get dl (today - int i)))"
  by (simp add: week_step_def Let_def day_get_def day_default_def split: option.splits)

lemma week_fold:
  "fold (week_step dl today) [0..<n] (m, c) =
     (m + sum_list (map (\<lambda>i. b_minutes (day_get dl (today - int i))) [0..<n]),
      c + sum_list (map (\<lambda>i. b_sessions (day_get dl (today - int i))) [0..<n]))"
  by (induction n) (simp_all add: week_step_get)

lemma week_totals_buckets:
  "week_totals dl today =
     (sum_list (map (\<lambda>i. b_minutes (day_get dl (today - int i))) [0..<7]),
      sum_list (map (\<lambda>i. b_sessions (day_get dl (today - int i))) [0..<7]))"
  unfolding week_totals_def by (simp only: week_fold add_0)

lemma sum_filter_disj:
  fixes f :: "'a \<Rightarrow> 'b::comm_monoid_add"
  assumes "\<And>x. \<not> (P x \<and> Q x)"
  shows "sum_list (map f (filter (\<lambda>x. P x \<or> Q x) xs)) =
         sum_list (map f (filter P xs)) + sum_list (map f (filter Q xs))"
  using assms by (induction xs) (auto simp add: ac_simps)

lemma window_sum:
  fixes f :: "session \<Rightarrow> 'b::comm_monoid_add"
  shows "sum_list (map (\<lambda>i. sum_list (map f (filter (\<lambda>s. ts_date (started_at s) = today - int i) fs))) [0..<n]) =
   sum_list (map f (filter (\<lambda>s. today - int n < ts_date (started_at s) \<and> ts_date (started_at s) \<le> today) fs))"
proof (induction n)
  case 0
  have "filter (\<lambda>s. today < ts_date (started_at s) \<and> ts_date (started_at s) \<le> today) fs = []"
    by (induction fs) auto
  then show ?case by simp
next
  case (Suc n)
  have split: "(\<lambda>s. today - int (Suc n) < ts_date (started_at s) \<and> ts_date (started_at s) \<le> today) =
        (\<lambda>s. (today - int n < ts_date (started_at s) \<and> ts_date (started_at s) \<le> today)
              \<or> ts_date (started_at s) = today - int n)"
    by (rule ext) auto
  have "sum_list (map f (filter (\<lambda>s. today - int (Suc n) < ts_date (started_at s) \<and> ts_date (started_at s) \<le> today) fs)) =
        sum_list (map f (filter (\<lambda>s. today - int n < ts_date (started_at s) \<and> ts_date (started_at s) \<le> today) fs))
        + sum_list (map f (filter (\<lambda>s. ts_date (started_at s) = today - int n) fs))"
    unfolding split by (rule sum_filter_disj) simp
  with Suc.IH show ?case by simp
qed

lemma length_as_sum: "length xs = sum_list (map (\<lambda>_. 1::nat) xs)"
  by (induction xs) simp_all

lemma week_totals_sessions:
  "week_totals (build_daily (focus_of sessions)) today =
     (sum_list (map actual_minutes (filter (in_week today) sessions)),
      length (filter (in_week today) sessions))"
proof -
  have win: "filter (\<lambda>s. today - int 7 < ts_date (started_at s) \<and> ts_date (started_at s) \<le> today)
          (focus_of sessions) = filter (in_week today) sessions"
    by (auto simp add: focus_of_def in_week_def intro!: filter_cong)
  have m: "sum_list (map (\<lambda>i. b_minutes (day_get (build_daily (focus_of sessions)) (today - int i))) [0..<7])
        = sum_list (map actual_minutes (filter (in_week today) sessions))"
    using window_sum[of actual_minutes today "focus_of sessions" 7]
    by (simp only: build_daily_get bucket_of_def Let_def day_bucket.simps win)
  have c: "sum_list (map (\<lambda>i. b_sessions (day_get (build_daily (focus_of sessions)) (today - int i))) [0..<7])
        = length (filter (in_week today) sessions)"
    using window_sum[of "\<lambda>_. 1::nat" today "focus_of sessions" 7]
    by (simp only: build_daily_get bucket_of_def Let_def day_bucket.simps win length_as_sum[symmetric])
  show ?thesis by (simp only: week_totals_buckets m c)
qed

section \<open>Properties of the timer and of the cycle\<close>

lemma run_timer_simple_record:
  assumes "countdown (m * 60) s es = Some (intr, Clock t # Now ts # Input x # es')"
  shows "run_timer_simple ty m lbl (sessions, Clock s # es) =
         Some (\<not> intr,
               sessions @ [\<lparr>stype = ty, planned_minutes = m, actual_minutes = round2 ((t - s) / 60),
                            completed = \<not> intr, label = lbl, started_at = ts\<rparr>],
               es')"
  using assms by (simp add: run_timer_simple_def)

lemma run_timer_resume:
  assumes "countdown (minutes * 60) s0 es0 = Some (True, Clock t0 # Input ''1'' # es1)"
    and "1 / 10 < minutes - (t0 - s0) / 60"
  shows "run_timer ty minutes lbl (sessions, Clock s0 # es0) =
         run_timer_simple ty (minutes - (t0 - s0) / 60) lbl (sessions, es1)"
proof -
  have rem: "(minutes * 60 - (t0 - s0) / 60 * 60) / 60 = minutes - (t0 - s0) / 60"
    by (simp add: field_simps)
  show ?thesis
    by (subst run_timer.simps)
       (simp only: Let_def time_time.simps input_prompt.simps option.case
          prod.case assms rem simp_thms if_True if_False)
qed

text \<open>
  What a run of \<open>run_timer\<close> that returns leaves in the session file: one new record
  whose completed flag is the value returned, or, in one case only, no new record and the
  value \<open>True\<close>.
\<close>

lemma log_session_appends:
  "log_session ty p a c l (sessions, es) = Some (sessions', es') \<Longrightarrow>
   \<exists>r. sessions' = sessions @ [r] \<and> completed r = c \<and> stype r = ty \<and> planned_minutes r = p"
  by (cases "(ty, p, a, c, l, (sessions, es))" rule: log_session.cases) auto

lemma run_timer_simple_appends:
  "run_timer_simple ty m l (sessions, es) = Some (b, sessions', es') \<Longrightarrow>
   \<exists>r. sessions' = sessions @ [r] \<and> completed r = b \<and> stype r = ty \<and> planned_minutes r = m"
  by (auto simp add: run_timer_simple_def Let_def split: option.splits if_splits prod.splits
      dest!: log_session_appends)

lemma run_timer_appends:
  "run_timer ty m l (sessions, es) = Some (b, sessions', es') \<Longrightarrow>
   (\<exists>r. sessions' = sessions @ [r] \<and> completed r = b \<and> stype r = ty) \<or> (sessions' = sessions \<and> b)"
proof (induction "length es" arbitrary: es rule: less_induct)
  case less
  note run = less.prems
  from run obtain start es1 where t0: "time_time es = Some (start, es1)"
    by (subst (asm) run_timer.simps) (auto simp add: Let_def split: option.splits)
  from run obtain intr es2 where cd: "countdown (m * 60) start es1 = Some (intr, es2)"
    by (subst (asm) run_timer.simps) (auto simp add: t0 Let_def split: option.splits)
  from run obtain t es3 where t1: "time_time es2 = Some (t, es3)"
    by (subst (asm) run_timer.simps) (auto simp add: t0 cd Let_def split: option.splits)
  show ?case
  proof (cases intr)
    case False
    with run show ?thesis
      by (subst (asm) run_timer.simps)
         (auto simp add: t0 cd t1 Let_def split: option.splits dest!: log_session_appends)
  next
    case True
    with run obtain choice es4 where c: "input_prompt es3 = Some (choice, es4)"
      by (subst (asm) run_timer.simps) (auto simp add: t0 cd t1 Let_def split: option.splits)
    from t0 cd t1 c have shorter: "length es4 < length es"
      by (auto dest!: time_time_shorter countdown_shorter input_prompt_shorter)
    consider "choice = ''1''" | "choice = ''2''" | "choice \<noteq> ''1''" "choice \<noteq> ''2''"
      by blast
    then show ?thesis
    proof cases
      case 1
      with run True show ?thesis
        by (subst (asm) run_timer.simps)
           (auto simp add: t0 cd t1 c Let_def split: if_splits dest!: run_timer_simple_appends)
    next
      case 2
      with run True have "run_timer ty m l (sessions, es4) = Some (b, sessions', es')"
        by (subst (asm) run_timer.simps) (simp add: t0 cd t1 c Let_def)
      from less.hyps[OF shorter this] show ?thesis .
    next
      case 3
      with run True show ?thesis
        by (subst (asm) run_timer.simps)
           (auto simp add: t0 cd t1 c Let_def split: option.splits dest!: log_session_appends)
    qed
  qed
qed














text \<open>
  With \<^verbatim>\<open>sessions_before_long_break\<close> set to 0 the remainder test raises as soon as the
  counter is positive: after the first focus session that is counted, the next iteration
  ends the cycle with \<^verbatim>\<open>ZeroDivisionError\<close>.
\<close>

lemma cycle_zero_setting_raises:
  "run_pomodoro_cycle (cycle_config\<lparr>sessions_before_long_break := 0\<rparr>)
     ([], Input ''write'' # complete_script 0 @ [Input ''n'', Input ''y'']) =
   Some (Inl ZeroDivisionError)"
  by code_simp

lemma chosen_minutes_total:
  "chosen_minutes config duration =
     Inr (case py_int duration of
            Inl e \<Rightarrow> focus_minutes config
          | Inr n \<Rightarrow> if n \<le> 0 then focus_minutes config else n)"
proof (cases "duration = []")
  case True
  then show ?thesis
    by (simp add: chosen_minutes_def try_minutes_def py_int_def strip_def)
next
  case False
  then show ?thesis
    by (cases "py_int duration")
       (auto simp add: chosen_minutes_def try_minutes_def py_int_def Let_def split: exn.splits if_splits)
qed

section \<open>The claims about the timer engine\<close>

text \<open>
  C1, as the code has it. A session that is interrupted and resumed with more than 0.1
  minutes remaining continues in \<^verbatim>\<open>run_timer_simple\<close>, which cannot be resumed again.
  When the resumed segment ends (interrupted or not) exactly one record is appended. Its
  planned minutes are the time that remained at the resume, the original plan minus the
  elapsed minutes of the first segment; its actual minutes are the elapsed minutes of the
  resumed segment alone, rounded to two decimals; and it is completed exactly when the
  resumed segment reached zero remaining without an interruption, which is also the value
  returned.
\<close>

theorem C1_resumed_record:
  assumes first: "countdown (minutes * 60) s0 es0 = Some (True, Clock t0 # Input ''1'' # Clock s1 # es1)"
    and remaining: "1 / 10 < minutes - (t0 - s0) / 60"
    and second: "countdown ((minutes - (t0 - s0) / 60) * 60) s1 es1 =
                   Some (interrupted, Clock t1 # Now ts # Input x # es2)"
  shows "run_timer ty minutes lbl (sessions, Clock s0 # es0) =
         Some (\<not> interrupted,
               sessions @ [\<lparr>stype = ty, planned_minutes = minutes - (t0 - s0) / 60,
                            actual_minutes = round2 ((t1 - s1) / 60),
                            completed = \<not> interrupted, label = lbl, started_at = ts\<rparr>],
               es2)"
  by (simp only: run_timer_resume[OF first remaining] run_timer_simple_record[OF second])

theorem C1_resumed_record_witness:
  "run_timer ''focus'' 1 [] ([], script_resumed) =
     Some (True, [\<lparr>stype = ''focus'', planned_minutes = 59 / 120, actual_minutes = 1 / 2,
                    completed = True, label = [], started_at = at_nine\<rparr>], [])"
proof -
  have first: "countdown (1 * 60) 0 (ticks 0 31 @ [Sigint, Clock (61 / 2), Input ''1''] @
                 Clock 32 # ticks 32 31 @ [Clock 62, Now at_nine, Input []]) =
               Some (True, Clock (61 / 2) # Input ''1'' # Clock 32 # ticks 32 31 @ [Clock 62, Now at_nine, Input []])"
    by code_simp
  have remaining: "1 / 10 < (1::rat) - (61 / 2 - 0) / 60" by simp
  have second: "countdown ((1 - (61 / 2 - 0) / 60) * 60) 32 (ticks 32 31 @ [Clock 62, Now at_nine, Input []]) =
               Some (False, Clock 62 # Now at_nine # Input [] # [])"
    by code_simp
  have r: "round2 ((62 - 32) / 60) = 1 / 2" by code_simp
  from C1_resumed_record[OF first remaining second, of "''focus''" "[]" "[]"] r
  show ?thesis by (simp add: script_resumed_def)
qed

text \<open>
  C1 as stated fails. A one-minute focus session is interrupted after 30.5 seconds and
  resumed, and the resumed segment runs 30 seconds to its end. The record has 59/120
  planned minutes, not the 1 minute originally planned, and 1/2 actual minutes, which
  differs from the sum of the two segments by more than a polling interval of one second.
\<close>

theorem C1_counterexample:
  "run_timer ''focus'' 1 [] ([], script_resumed) =
     Some (True, [\<lparr>stype = ''focus'', planned_minutes = 59 / 120, actual_minutes = 1 / 2,
                    completed = True, label = [], started_at = at_nine\<rparr>], []) \<and>
   (59 / 120 :: rat) \<noteq> 1 \<and>
   \<bar>(1 / 2 :: rat) - ((61 / 2 - 0) / 60 + (62 - 32) / 60)\<bar> > 1 / 60"
proof -
  have "run_timer ''focus'' 1 [] ([], script_resumed) =
     Some (True, [\<lparr>stype = ''focus'', planned_minutes = 59 / 120, actual_minutes = 1 / 2,
                    completed = True, label = [], started_at = at_nine\<rparr>], [])"
    by code_simp
  then show ?thesis by simp
qed

text \<open>
  C2 fails on the code. A one-minute focus session is interrupted after 55.5 seconds and
  the user answers 1 (resume): the remaining 0.075 minutes are not above 0.1, so
  \<^verbatim>\<open>run_timer\<close> returns \<open>True\<close>, completed, and the session file is unchanged: no record
  was appended.
\<close>

theorem C2_resume_near_end_logs_nothing:
  "run_timer ''focus'' 1 [] ([], script_near_end) = Some (True, [], [])"
  by code_simp




text \<open>
  C8. Choosing the minutes of a focus session never ends in an exception, and neither
  does the focus screen. When the duration typed by the user does not parse as an
  integer, or parses to a value that is not positive, the minutes are the configured
  \<^verbatim>\<open>focus_minutes\<close> and the session runs with them.
\<close>

theorem C8_duration_fallback:
  "(\<forall>e. chosen_minutes config duration \<noteq> Inl e) \<and>
   (\<forall>e. screen_focus_session config w \<noteq> Some (Inl e)) \<and>
   (py_int duration = Inl ValueError \<or> (\<exists>n\<le>0. py_int duration = Inr n) \<longrightarrow>
      chosen_minutes config duration = Inr (focus_minutes config) \<and>
      screen_focus_session config (sessions, Input lbl # Input duration # Input x # es) =
        map_option Inr (run_timer ''focus'' (of_int (focus_minutes config)) lbl (sessions, es)))"
proof (intro conjI allI impI)
  fix e show "chosen_minutes config duration \<noteq> Inl e"
    by (simp add: chosen_minutes_total)
next
  fix e show "screen_focus_session config w \<noteq> Some (Inl e)"
    by (cases w)
       (auto simp add: screen_focus_session_def chosen_minutes_total split: option.splits)
next
  assume "py_int duration = Inl ValueError \<or> (\<exists>n\<le>0. py_int duration = Inr n)"
  then show c: "chosen_minutes config duration = Inr (focus_minutes config)"
    by (auto simp add: chosen_minutes_total)
  show "screen_focus_session config (sessions, Input lbl # Input duration # Input x # es) =
        map_option Inr (run_timer ''focus'' (of_int (focus_minutes config)) lbl (sessions, es))"
    by (simp add: screen_focus_session_def c)
qed

theorem C8_duration_fallback_witness:
  "py_int ''abc'' = Inl ValueError \<and> chosen_minutes DEFAULT_CONFIG ''abc'' = Inr 25 \<and>
   py_int ''-5'' = Inr (- 5) \<and> chosen_minutes DEFAULT_CONFIG ''-5'' = Inr 25 \<and>
   py_int ''2.5'' = Inl ValueError \<and> chosen_minutes DEFAULT_CONFIG ''2.5'' = Inr 25"
proof -
  have a: "py_int ''abc'' = Inl ValueError" by code_simp
  have b: "py_int ''-5'' = Inr (- 5)" by code_simp
  have c: "py_int ''2.5'' = Inl ValueError" by code_simp
  have d: "focus_minutes DEFAULT_CONFIG = 25" by (simp add: DEFAULT_CONFIG_def)
  from b have b': "\<exists>n\<le>0. py_int ''-5'' = Inr n" by simp
  from C8_duration_fallback[of DEFAULT_CONFIG "''abc''"] a d
  have "chosen_minutes DEFAULT_CONFIG ''abc'' = Inr 25" by simp
  moreover from C8_duration_fallback[of DEFAULT_CONFIG "''-5''"] b' d
  have "chosen_minutes DEFAULT_CONFIG ''-5'' = Inr 25" by simp
  moreover from C8_duration_fallback[of DEFAULT_CONFIG "''2.5''"] c d
  have "chosen_minutes DEFAULT_CONFIG ''2.5'' = Inr 25" by simp
  ultimately show ?thesis using a b c by simp
qed

section \<open>The claims about the statistics engine\<close>

text \<open>
  C4. On the empty log the statistics are the explicit empty result and not a report.
  On every log the computation raises no exception (so no division by zero), and the
  completion rate of a report is completed / total * 100 over the focus sessions, and 0
  when there is no focus session.
\<close>

theorem C4_empty_log_and_completion_rate:
  "compute_stats [] today = Inr None \<and>
   (\<forall>e. compute_stats sessions today \<noteq> Inl e) \<and>
   (\<forall>r. compute_stats sessions today = Inr (Some r) \<longrightarrow>
      completion_rate r =
        (let focus = filter (\<lambda>s. stype s = ''focus'') sessions
         in if focus = [] then 0
            else of_nat (length (filter completed focus)) / of_nat (length focus) * 100))"
proof (intro conjI allI impI)
  show "compute_stats [] today = Inr None"
    by (simp add: compute_stats_def)
next
  fix e
  show "compute_stats sessions today \<noteq> Inl e"
    by (simp add: compute_stats_def completion_rate_of_value Let_def)
next
  fix r
  assume "compute_stats sessions today = Inr (Some r)"
  then show "completion_rate r =
        (let focus = filter (\<lambda>s. stype s = ''focus'') sessions
         in if focus = [] then 0
            else of_nat (length (filter completed focus)) / of_nat (length focus) * 100)"
    by (auto simp add: compute_stats_def completion_rate_of_value Let_def split: if_splits)
qed

theorem C4_empty_log_and_completion_rate_witness:
  "compute_stats log_five_gap_two (ymd2ord 2024 3 4) \<noteq> Inl ZeroDivisionError \<and>
   (\<exists>r. compute_stats log_five_gap_two (ymd2ord 2024 3 4) = Inr (Some r) \<and>
        completion_rate r = 7 / 8 * 100)"
proof -
  obtain r where r: "compute_stats log_five_gap_two (ymd2ord 2024 3 4) = Inr (Some r)"
    using compute_stats_nonempty[of log_five_gap_two] by (auto simp add: log_five_gap_two_def)
  from C4_empty_log_and_completion_rate[of "ymd2ord 2024 3 4" log_five_gap_two] r
  have "completion_rate r = 7 / 8 * 100"
    by (simp add: log_five_gap_two_def focus_record_def)
  with r show ?thesis by auto
qed

text \<open>
  C5. For every log and every today: the empty log has the empty result and no streak;
  for any other log the current streak \<open>c\<close> of the report is at most 365, each of
  the \<open>c\<close> days today, today - 1, ... is active, the walk stopped on an inactive day
  unless it used all its 365 steps, and \<open>c\<close> is 0 when today is not active. A day is
  active exactly when it is a key of the report's daily buckets and its bucket has a
  completed count above zero.
\<close>

theorem C5_current_streak:
  "(sessions = [] \<and> compute_stats sessions today = Inr None) \<or>
   (\<exists>r. compute_stats sessions today = Inr (Some r) \<and>
        current_streak r \<le> 365 \<and>
        (\<forall>i<current_streak r. active_day sessions (today - int i)) \<and>
        (current_streak r < 365 \<longrightarrow> \<not> active_day sessions (today - int (current_streak r))) \<and>
        (\<not> active_day sessions today \<longrightarrow> current_streak r = 0) \<and>
        (\<forall>d. active_day sessions d =
               (map_of (daily r) d \<noteq> None \<and> 0 < b_completed (day_get (daily r) d))))"
proof (cases "sessions = []")
  case True
  then show ?thesis by (simp add: compute_stats_None)
next
  case False
  then obtain r where r: "compute_stats sessions today = Inr (Some r)"
    using compute_stats_nonempty by blast
  note cs = compute_stats_Some(2,3)[OF r]
  have a: "current_streak r \<le> 365"
    unfolding cs by (rule current_streak_char(1))
  have b: "\<forall>i<current_streak r. active_day sessions (today - int i)"
    unfolding cs by (blast intro: current_streak_char(2))
  have c: "current_streak r < 365 \<longrightarrow> \<not> active_day sessions (today - int (current_streak r))"
    unfolding cs by (blast dest: current_streak_char(3))
  have d: "\<not> active_day sessions today \<longrightarrow> current_streak r = 0"
  proof (intro impI, rule ccontr)
    assume na: "\<not> active_day sessions today" and "current_streak r \<noteq> 0"
    then have "0 < current_streak r" by simp
    with b have "active_day sessions (today - int 0)" by blast
    with na show False by simp
  qed
  have e: "\<forall>d. active_day sessions d =
               (map_of (daily r) d \<noteq> None \<and> 0 < b_completed (day_get (daily r) d))"
    unfolding cs by (simp add: daily_active[symmetric] day_active_def)
  from r a b c d e show ?thesis by blast
qed

theorem C5_current_streak_witness:
  "\<exists>r. compute_stats log_five_gap_two (ymd2ord 2024 3 4) = Inr (Some r) \<and>
       current_streak r = 2 \<and>
       active_day log_five_gap_two (ymd2ord 2024 3 4) \<and>
       active_day log_five_gap_two (ymd2ord 2024 3 3) \<and>
       \<not> active_day log_five_gap_two (ymd2ord 2024 3 2)"
proof -
  have ne: "log_five_gap_two \<noteq> []" by (simp add: log_five_gap_two_def)
  have two: "map_option current_streak (projr (compute_stats log_five_gap_two (ymd2ord 2024 3 4))) = Some 2"
    by code_simp
  have days: "ymd2ord 2024 3 4 - int 0 = ymd2ord 2024 3 4" "ymd2ord 2024 3 4 - int 1 = ymd2ord 2024 3 3"
    "ymd2ord 2024 3 4 - int 2 = ymd2ord 2024 3 2"
    by (simp_all add: ymd_simps)
  from C5_current_streak[of log_five_gap_two "ymd2ord 2024 3 4"] ne
  obtain r where r: "compute_stats log_five_gap_two (ymd2ord 2024 3 4) = Inr (Some r)"
    and run: "\<forall>i<current_streak r. active_day log_five_gap_two (ymd2ord 2024 3 4 - int i)"
    and stop: "current_streak r < 365 \<longrightarrow>
               \<not> active_day log_five_gap_two (ymd2ord 2024 3 4 - int (current_streak r))"
    by blast
  from two r have c: "current_streak r = 2" by simp
  from run[rule_format, of 0] c have "active_day log_five_gap_two (ymd2ord 2024 3 4 - int 0)"
    by simp
  moreover from run[rule_format, of 1] c have "active_day log_five_gap_two (ymd2ord 2024 3 4 - int 1)"
    by simp
  moreover from stop c have "\<not> active_day log_five_gap_two (ymd2ord 2024 3 4 - int 2)" by simp
  ultimately show ?thesis using r c unfolding days by blast
qed

text \<open>
  C6. The best streak of a report is the length of the longest run of consecutive active
  days: no run is longer, and a run of that length exists. For a log whose active days are
  five consecutive days, a gap of one day and two more days, it is 5; for a log whose
  active days are 2024-01-01 to 2024-01-03, with today 2024-01-05, the current streak is 0
  and the best streak is at least 3.
\<close>

theorem C6_best_streak:
  assumes r: "compute_stats sessions today = Inr (Some r)"
  shows "(\<forall>d k. (\<forall>i<k. active_day sessions (d - int i)) \<longrightarrow> k \<le> best_streak r) \<and>
         (\<exists>d. \<forall>i<best_streak r. active_day sessions (d - int i)) \<and>
         ((\<forall>d. active_day sessions d = (d \<in> {d0 .. d0 + 4} \<union> {d0 + 6, d0 + 7}))
            \<longrightarrow> best_streak r = 5) \<and>
         ((\<forall>d. active_day sessions d = (d \<in> {ymd2ord 2024 1 1 .. ymd2ord 2024 1 3})) \<and>
          today = ymd2ord 2024 1 5
            \<longrightarrow> current_streak r = 0 \<and> 3 \<le> best_streak r)"
proof -
  let ?dl = "build_daily (focus_of sessions)"
  note cs = compute_stats_Some(3,4)[OF r]
  have upper: "k \<le> best_streak r" if "\<And>i. i < k \<Longrightarrow> active_day sessions (d - int i)" for d k
    unfolding cs
    by (rule best_streak_upper[OF build_daily_distinct, of k _ d]) (simp add: daily_active that)
  have run: "\<exists>d. \<forall>i<best_streak r. active_day sessions (d - int i)"
    unfolding cs using best_streak_run[of ?dl] by (simp add: daily_active)
  have ex1: "best_streak r = 5"
    if act: "\<forall>d. active_day sessions d = (d \<in> {d0 .. d0 + 4} \<union> {d0 + 6, d0 + 7})"
  proof -
    have "5 \<le> best_streak r"
    proof (rule upper[of 5 "d0 + 4"])
      fix i :: nat assume "i < 5"
      then show "active_day sessions (d0 + 4 - int i)" by (simp add: act)
    qed
    moreover have "best_streak r \<le> 5"
    proof (rule ccontr)
      assume "\<not> best_streak r \<le> 5"
      then have big: "5 < best_streak r" by simp
      from run obtain d where d: "\<forall>i<best_streak r. active_day sessions (d - int i)" by blast
      from d[rule_format, of 0] d[rule_format, of 1] d[rule_format, of 2] d[rule_format, of 5] big
      have "active_day sessions d" "active_day sessions (d - 1)"
        "active_day sessions (d - 2)" "active_day sessions (d - 5)"
        by simp_all
      then show False by (auto simp add: act)
    qed
    ultimately show ?thesis by simp
  qed
  have ex2: "current_streak r = 0 \<and> 3 \<le> best_streak r"
    if act: "\<forall>d. active_day sessions d = (d \<in> {ymd2ord 2024 1 1 .. ymd2ord 2024 1 3})"
      and today: "today = ymd2ord 2024 1 5"
  proof
    have "\<not> active_day sessions today"
      by (simp add: act today ymd_simps)
    then have "\<not> 0 < current_streak_of ?dl today"
      using current_streak_char(2)[of 0 sessions today] by auto
    then show "current_streak r = 0" unfolding cs by simp
    show "3 \<le> best_streak r"
    proof (rule upper[of 3 "ymd2ord 2024 1 3"])
      fix i :: nat assume "i < 3"
      then show "active_day sessions (ymd2ord 2024 1 3 - int i)"
        by (simp add: act ymd_simps)
    qed
  qed
  from upper run ex1 ex2 show ?thesis by blast
qed

theorem C6_best_streak_witness:
  "(\<exists>r. compute_stats log_five_gap_two (ymd2ord 2024 3 4) = Inr (Some r) \<and> best_streak r = 5) \<and>
   (\<exists>r. compute_stats log_three_days (ymd2ord 2024 1 5) = Inr (Some r) \<and>
        current_streak r = 0 \<and> 3 \<le> best_streak r)"
proof
  obtain r where r: "compute_stats log_five_gap_two (ymd2ord 2024 3 4) = Inr (Some r)"
    using compute_stats_nonempty[of log_five_gap_two] by (auto simp add: log_five_gap_two_def)
  have "\<forall>d. active_day log_five_gap_two d =
          (d \<in> {ymd2ord 2024 2 26 .. ymd2ord 2024 2 26 + 4} \<union> {ymd2ord 2024 2 26 + 6, ymd2ord 2024 2 26 + 7})"
    by (auto simp add: active_day_def focus_on_day_def log_five_gap_two_def focus_record_def ymd_simps)
  with C6_best_streak[OF r, of "ymd2ord 2024 2 26"] have "best_streak r = 5" by blast
  with r show "\<exists>r. compute_stats log_five_gap_two (ymd2ord 2024 3 4) = Inr (Some r) \<and> best_streak r = 5"
    by blast
next
  obtain r where r: "compute_stats log_three_days (ymd2ord 2024 1 5) = Inr (Some r)"
    using compute_stats_nonempty[of log_three_days] by (auto simp add: log_three_days_def)
  have "\<forall>d. active_day log_three_days d = (d \<in> {ymd2ord 2024 1 1 .. ymd2ord 2024 1 3})"
    by (auto simp add: active_day_def focus_on_day_def log_three_days_def focus_record_def ymd_simps)
  with C6_best_streak[OF r] have "current_streak r = 0 \<and> 3 \<le> best_streak r" by blast
  with r show "\<exists>r. compute_stats log_three_days (ymd2ord 2024 1 5) = Inr (Some r) \<and>
        current_streak r = 0 \<and> 3 \<le> best_streak r"
    by blast
qed

text \<open>
  C7. For every log and every today: the empty log has the empty result; for any other
  log the weekly minutes and sessions of the report are the sums of the minutes and
  session counts of the seven daily buckets of today and the six dates before it (a
  missing bucket counts as zero), which are the sum of the actual minutes and the number
  of the focus sessions started on those seven dates, whatever their hour.
\<close>

theorem C7_weekly_totals:
  "(sessions = [] \<and> compute_stats sessions today = Inr None) \<or>
   (\<exists>r. compute_stats sessions today = Inr (Some r) \<and>
      week_minutes r = sum_list (map (\<lambda>i. b_minutes (day_get (daily r) (today - int i))) [0..<7]) \<and>
      week_sessions r = sum_list (map (\<lambda>i. b_sessions (day_get (daily r) (today - int i))) [0..<7]) \<and>
      week_minutes r = sum_list (map actual_minutes (filter (in_week today) sessions)) \<and>
      week_sessions r = length (filter (in_week today) sessions))"
proof (cases "sessions = []")
  case True
  then show ?thesis by (simp add: compute_stats_None)
next
  case False
  then obtain r where r: "compute_stats sessions today = Inr (Some r)"
    using compute_stats_nonempty by blast
  note cs = compute_stats_Some(2,5,6)[OF r]
  have "week_minutes r = sum_list (map (\<lambda>i. b_minutes (day_get (daily r) (today - int i))) [0..<7])"
    and "week_sessions r = sum_list (map (\<lambda>i. b_sessions (day_get (daily r) (today - int i))) [0..<7])"
    unfolding cs by (simp_all only: week_totals_buckets fst_conv snd_conv)
  moreover have "week_minutes r = sum_list (map actual_minutes (filter (in_week today) sessions))"
    and "week_sessions r = length (filter (in_week today) sessions)"
    unfolding cs by (simp_all only: week_totals_sessions fst_conv snd_conv)
  ultimately show ?thesis using r by blast
qed

theorem C7_weekly_totals_witness:
  "\<exists>r. compute_stats log_week (ymd2ord 2024 3 4) = Inr (Some r) \<and>
       week_minutes r = 35 \<and> week_sessions r = 2 \<and>
       filter (in_week (ymd2ord 2024 3 4)) log_week =
         [focus_record (ymd2ord 2024 2 27) 0 10 False, focus_record (ymd2ord 2024 3 4) 23 25 True]"
proof -
  have ne: "log_week \<noteq> []" by (simp add: log_week_def)
  have f: "filter (in_week (ymd2ord 2024 3 4)) log_week =
         [focus_record (ymd2ord 2024 2 27) 0 10 False, focus_record (ymd2ord 2024 3 4) 23 25 True]"
    by (simp add: log_week_def in_week_def focus_record_def break_record_def ymd_simps)
  from C7_weekly_totals[of log_week "ymd2ord 2024 3 4"] ne
  obtain r where r: "compute_stats log_week (ymd2ord 2024 3 4) = Inr (Some r)"
    and m: "week_minutes r = sum_list (map actual_minutes (filter (in_week (ymd2ord 2024 3 4)) log_week))"
    and c: "week_sessions r = length (filter (in_week (ymd2ord 2024 3 4)) log_week)"
    by blast
  from m c have "week_minutes r = 35" "week_sessions r = 2"
    unfolding f by (simp_all add: focus_record_def)
  with r f show ?thesis by blast
qed

text \<open>
  C9. For every non-empty log and every today, the report's best streak is at least its
  current streak.
\<close>

theorem C9_best_ge_current:
  "sessions \<noteq> [] \<Longrightarrow>
   \<exists>r. compute_stats sessions today = Inr (Some r) \<and> current_streak r \<le> best_streak r"
proof -
  assume "sessions \<noteq> []"
  then obtain r where r: "compute_stats sessions today = Inr (Some r)"
    using compute_stats_nonempty by blast
  have "current_streak r \<le> best_streak r"
    unfolding compute_stats_Some(3,4)[OF r]
    by (rule current_le_best) (rule build_daily_distinct)
  with r show ?thesis by blast
qed

theorem C9_best_ge_current_witness:
  "log_five_gap_two \<noteq> [] \<and>
   (\<exists>r. compute_stats log_five_gap_two (ymd2ord 2024 3 4) = Inr (Some r) \<and>
        current_streak r = 2 \<and> best_streak r = 5 \<and> current_streak r \<le> best_streak r)"
proof -
  have ne: "log_five_gap_two \<noteq> []" by (simp add: log_five_gap_two_def)
  have two: "map_option current_streak (projr (compute_stats log_five_gap_two (ymd2ord 2024 3 4))) = Some 2"
    by code_simp
  have five: "map_option best_streak (projr (compute_stats log_five_gap_two (ymd2ord 2024 3 4))) = Some 5"
    by code_simp
  from C9_best_ge_current[OF ne, of "ymd2ord 2024 3 4"]
  obtain r where r: "compute_stats log_five_gap_two (ymd2ord 2024 3 4) = Inr (Some r)"
    and le: "current_streak r \<le> best_streak r" by blast
  from two five r have "current_streak r = 2" "best_streak r = 5" by simp_all
  with ne r le show ?thesis by blast
qed

text \<open>
  C10. A non-empty log with no record of type focus has a full report: every total,
  the completion rate and both streaks are 0, the daily and hourly buckets are empty,
  there is no best day, the weekly sums are 0, and the first session date is the date of
  the first record. The empty result is returned for the empty log and for no other.
\<close>

theorem C10_no_focus_records:
  assumes "sessions \<noteq> []" and "\<forall>s\<in>set sessions. stype s \<noteq> ''focus''"
  shows "compute_stats sessions today =
           Inr (Some \<lparr>total_focus_minutes = 0, total_completed_minutes = 0,
                      total_focus_sessions = 0, completed_focus_sessions = 0,
                      completion_rate = 0, current_streak = 0, best_streak = 0,
                      daily = [], hourly = [], best_day = None,
                      week_minutes = 0, week_sessions = 0,
                      first_session_date = Some (ts_date (started_at (hd sessions)))\<rparr>) \<and>
         ((compute_stats other today = Inr None) = (other = []))"
proof
  from assms(2) have nof: "filter (\<lambda>s. stype s = ''focus'') sessions = []"
    by (simp add: filter_empty_conv)
  have w: "week_totals [] today = (0, 0)"
    by (simp only: week_totals_buckets) (simp add: day_get_def day_default_def)
  from assms(1) show "compute_stats sessions today =
           Inr (Some \<lparr>total_focus_minutes = 0, total_completed_minutes = 0,
                      total_focus_sessions = 0, completed_focus_sessions = 0,
                      completion_rate = 0, current_streak = 0, best_streak = 0,
                      daily = [], hourly = [], best_day = None,
                      week_minutes = 0, week_sessions = 0,
                      first_session_date = Some (ts_date (started_at (hd sessions)))\<rparr>)"
    by (simp add: compute_stats_def nof completion_rate_of_value build_daily_def build_hourly_def
        current_streak_of_def current_loop_empty best_streak_of_def best_day_of_def w)
  show "(compute_stats other today = Inr None) = (other = [])"
    by (rule compute_stats_None)
qed

theorem C10_no_focus_records_witness:
  "[break_record 738886 10, break_record 738886 11] \<noteq> [] \<and>
   list_all (\<lambda>s. stype s \<noteq> ''focus'') [break_record 738886 10, break_record 738886 11] \<and>
   map_option current_streak (projr (compute_stats [break_record 738886 10, break_record 738886 11] 738886)) = Some 0 \<and>
   map_option daily (projr (compute_stats [break_record 738886 10, break_record 738886 11] 738886)) = Some [] \<and>
   compute_stats [break_record 738886 10, break_record 738886 11] 738886 \<noteq> Inr None"
proof -
  let ?log = "[break_record 738886 10, break_record 738886 11]"
  have ne: "?log \<noteq> []" by simp
  have nf: "\<forall>s\<in>set ?log. stype s \<noteq> ''focus''" by (simp add: break_record_def)
  from C10_no_focus_records[OF ne nf, of 738886 ?log] nf ne show ?thesis
    by (simp add: break_record_def)
qed

end
